theory Spec2Isabelle
  imports Complex_Main "HOL-Library.Sublist"
begin

section \<open>Python values and failures\<close>

text \<open>
  The functions of \<^verbatim>\<open>crop_utils.py\<close> index into lists and tuples, which raises
  \<^verbatim>\<open>IndexError\<close> out of range, and convert numbers with \<^verbatim>\<open>float\<close>, which raises
  \<^verbatim>\<open>OverflowError\<close> on an integer beyond the floats. On numeric boxes and integer page
  numbers they raise nothing else. A result is \<open>Inl e\<close> when the Python raises \<open>e\<close> and
  \<open>Inr v\<close> when it returns \<open>v\<close>.
\<close>

datatype py_error = IndexError | OverflowError

fun and_then :: "py_error + 'a \<Rightarrow> ('a \<Rightarrow> py_error + 'b) \<Rightarrow> py_error + 'b" where
  "and_then (Inl e) f = Inl e"
| "and_then (Inr v) f = f v"

text \<open>
  \<^verbatim>\<open>seq[i]\<close> for a Python integer \<open>i\<close>: an index below zero counts from the end, and an
  index outside \<open>[-len, len)\<close> raises.
\<close>

definition getitem :: "'a list \<Rightarrow> int \<Rightarrow> py_error + 'a" where
  "getitem seq i =
     (if 0 \<le> i \<and> i < int (length seq) then Inr (seq ! nat i)
      else if i < 0 \<and> - int (length seq) \<le> i then Inr (seq ! nat (int (length seq) + i))
      else Inl IndexError)"

text \<open>
  A box is a Python sequence of coordinates, a tuple or a list; the two compare unequal
  in Python even with the same entries, so the container is kept. Coordinates are only
  compared and copied, never computed with.
\<close>

datatype 'a box = PyTuple "'a list" | PyList "'a list"

fun items :: "'a box \<Rightarrow> 'a list" where
  "items (PyTuple xs) = xs"
| "items (PyList xs) = xs"

section \<open>page\_configuration.py\<close>

text \<open>
  \<open>percent_retain_4\<close> and \<open>absolute_precrop_4\<close> are tested with \<^verbatim>\<open>isinstance(_, list)\<close>,
  so they hold any Python value; \<open>percent_retain\<close> is copied into a list, so it does too.
  The resolutions are numbers, compared with zero.
\<close>

datatype pyval =
    PyNone
  | PyNum real
  | PyStr string
  | PyTupleV "pyval list"
  | PyListV "pyval list"

record page_configuration =
  verbose :: bool
  password :: "string option"
  res_x :: real
  res_y :: real
  full_page_box :: "string list"
  absolute_precrop_4 :: pyval
  percent_retain :: pyval
  percent_retain_4 :: pyval
  write_crop_data_to_file :: "string option"
  boxes_to_set :: "string list"
  page_ratio_weights :: "real list"

definition DEFAULT_DPI :: real where
  "DEFAULT_DPI = 72"

definition DEFAULT_PERCENT_RETAIN :: real where
  "DEFAULT_PERCENT_RETAIN = 10"

definition DEFAULT_PAGE_RATIO_WEIGHTS :: "real list" where
  "DEFAULT_PAGE_RATIO_WEIGHTS = [1, 1, 1, 1]"

text \<open>\<^verbatim>\<open>_set_default_values\<close>, the state after \<^verbatim>\<open>PageConfiguration(None)\<close>.\<close>

definition set_default_values :: page_configuration where
  "set_default_values =
     \<lparr> verbose = False, password = None, res_x = DEFAULT_DPI, res_y = DEFAULT_DPI,
       full_page_box = [''m'', ''c''],
       absolute_precrop_4 = PyListV [PyNum 0, PyNum 0, PyNum 0, PyNum 0],
       percent_retain = PyNum DEFAULT_PERCENT_RETAIN,
       percent_retain_4 = PyListV (replicate 4 (PyNum DEFAULT_PERCENT_RETAIN)),
       write_crop_data_to_file = None, boxes_to_set = [''m''],
       page_ratio_weights = DEFAULT_PAGE_RATIO_WEIGHTS \<rparr>"

text \<open>
  The read methods. Each is given \<open>self\<close> and assigns nothing; the result is \<open>self\<close> as the
  call leaves it and the value returned.
\<close>

definition get_resolution_tuple :: "page_configuration \<Rightarrow> page_configuration \<times> (real \<times> real)" where
  "get_resolution_tuple self = (self, (res_x self, res_y self))"

definition is_verbose_mode :: "page_configuration \<Rightarrow> page_configuration \<times> bool" where
  "is_verbose_mode self = (self, verbose self)"

definition has_password :: "page_configuration \<Rightarrow> page_configuration \<times> bool" where
  "has_password self = (self, password self \<noteq> None)"

definition get_password :: "page_configuration \<Rightarrow> page_configuration \<times> string option" where
  "get_password self = (self, password self)"

definition should_write_crop_data :: "page_configuration \<Rightarrow> page_configuration \<times> bool" where
  "should_write_crop_data self = (self, write_crop_data_to_file self \<noteq> None)"

definition get_crop_data_filename :: "page_configuration \<Rightarrow> page_configuration \<times> string option" where
  "get_crop_data_filename self = (self, write_crop_data_to_file self)"

text \<open>\<^verbatim>\<open>not isinstance(v, list) or len(v) != 4\<close>; \<open>len\<close> is reached on lists only.\<close>

fun not_list_of_4 :: "pyval \<Rightarrow> bool" where
  "not_list_of_4 (PyListV vs) = (length vs \<noteq> 4)"
| "not_list_of_4 v = True"

text \<open>
  \<^verbatim>\<open>validate_settings\<close>: four checks in sequence, each repairing a field of \<open>self\<close> and
  appending a warning. The f-strings hold \<open>DEFAULT_DPI\<close>, which prints as \<open>72\<close>.
  Comparing a number with zero, \<open>isinstance\<close>, \<open>len\<close> of a list, assignment and \<open>append\<close>
  cannot raise, so there is no failure branch.
\<close>

definition check_res_x :: "page_configuration \<times> string list \<Rightarrow> page_configuration \<times> string list" where
  "check_res_x st = (case st of (self, warnings) \<Rightarrow>
     if res_x self \<le> 0 then
       (self\<lparr>res_x := DEFAULT_DPI\<rparr>, warnings @ [''Invalid X resolution, reset to 72''])
     else (self, warnings))"

definition check_res_y :: "page_configuration \<times> string list \<Rightarrow> page_configuration \<times> string list" where
  "check_res_y st = (case st of (self, warnings) \<Rightarrow>
     if res_y self \<le> 0 then
       (self\<lparr>res_y := DEFAULT_DPI\<rparr>, warnings @ [''Invalid Y resolution, reset to 72''])
     else (self, warnings))"

definition check_percent_retain_4 ::
  "page_configuration \<times> string list \<Rightarrow> page_configuration \<times> string list" where
  "check_percent_retain_4 st = (case st of (self, warnings) \<Rightarrow>
     if not_list_of_4 (percent_retain_4 self) then
       (self\<lparr>percent_retain_4 := PyListV (replicate 4 (percent_retain self))\<rparr>,
        warnings @ [''Fixed percent_retain_4 to have 4 values''])
     else (self, warnings))"

definition check_absolute_precrop_4 ::
  "page_configuration \<times> string list \<Rightarrow> page_configuration \<times> string list" where
  "check_absolute_precrop_4 st = (case st of (self, warnings) \<Rightarrow>
     if not_list_of_4 (absolute_precrop_4 self) then
       (self\<lparr>absolute_precrop_4 := PyListV [PyNum 0, PyNum 0, PyNum 0, PyNum 0]\<rparr>,
        warnings @ [''Fixed absolute_precrop_4 to have 4 values''])
     else (self, warnings))"

definition validate_settings :: "page_configuration \<Rightarrow> page_configuration \<times> string list" where
  "validate_settings self =
     check_absolute_precrop_4 (check_percent_retain_4 (check_res_y (check_res_x (self, []))))"

section \<open>crop\_utils.py\<close>

subsection \<open>calculate\_same\_size\_bounding\_box\<close>

text \<open>
  \<^verbatim>\<open>(full_page_box_list[pg][k] for pg in page_nums_to_crop)\<close>: the selection is a Python
  set, given here by the list of its elements in iteration order.
\<close>

fun edge_values :: "'a box list \<Rightarrow> int list \<Rightarrow> int \<Rightarrow> py_error + 'a list" where
  "edge_values full_page_box_list [] k = Inr []"
| "edge_values full_page_box_list (pg # pgs) k =
     and_then (getitem full_page_box_list pg) (\<lambda>b.
     and_then (getitem (items b) k) (\<lambda>v.
     and_then (edge_values full_page_box_list pgs k) (\<lambda>vs. Inr (v # vs))))"

text \<open>\<^verbatim>\<open>[sortlist[order_n] for sortlist in same_size_bounding_box]\<close>\<close>

fun index_each :: "'a list list \<Rightarrow> int \<Rightarrow> py_error + 'a list" where
  "index_each [] order_n = Inr []"
| "index_each (sortlist # rest) order_n =
     and_then (getitem sortlist order_n) (\<lambda>v.
     and_then (index_each rest order_n) (\<lambda>vs. Inr (v # vs)))"

definition calculate_same_size_bounding_box ::
  "('a::linorder) box list \<Rightarrow> int list \<Rightarrow> int \<Rightarrow> py_error + 'a list" where
  "calculate_same_size_bounding_box full_page_box_list page_nums_to_crop order_n =
     and_then (edge_values full_page_box_list page_nums_to_crop 0) (\<lambda>lefts.
     and_then (edge_values full_page_box_list page_nums_to_crop 1) (\<lambda>bottoms.
     and_then (edge_values full_page_box_list page_nums_to_crop 2) (\<lambda>rights.
     and_then (edge_values full_page_box_list page_nums_to_crop 3) (\<lambda>tops.
       index_each [sort lefts, sort bottoms, rev (sort rights), rev (sort tops)] order_n))))"

subsection \<open>combine\_tuple\_lists\_with\_mask\<close>

text \<open>
  The inner loop \<^verbatim>\<open>for index, char in enumerate(mask)\<close>: reading
  \<^verbatim>\<open>optional_tuple[index]\<close> and assigning \<^verbatim>\<open>new_default_tuple[index]\<close> both raise
  when \<open>index\<close> is past the end.
\<close>

fun mask_loop :: "nat \<Rightarrow> string \<Rightarrow> 'a list \<Rightarrow> 'a list \<Rightarrow> py_error + 'a list" where
  "mask_loop index [] new_default_tuple optional_tuple = Inr new_default_tuple"
| "mask_loop index (char # msk) new_default_tuple optional_tuple =
     (if char = CHR ''t'' then
        (if index < length optional_tuple \<and> index < length new_default_tuple then
           mask_loop (Suc index) msk
             (new_default_tuple[index := optional_tuple ! index]) optional_tuple
         else Inl IndexError)
      else mask_loop (Suc index) msk new_default_tuple optional_tuple)"

text \<open>The outer loop over \<^verbatim>\<open>zip(default_list, optional_list)\<close>, appending to \<^verbatim>\<open>final_list\<close>.\<close>

fun combine_loop ::
  "string \<Rightarrow> ('a box \<times> 'a box) list \<Rightarrow> 'a box list \<Rightarrow> py_error + 'a box list" where
  "combine_loop msk [] final_list = Inr final_list"
| "combine_loop msk ((default_tuple, optional_tuple) # pairs) final_list =
     and_then (mask_loop 0 msk (items default_tuple) (items optional_tuple)) (\<lambda>new_default_tuple.
       combine_loop msk pairs (final_list @ [PyTuple new_default_tuple]))"

definition combine_tuple_lists_with_mask ::
  "string \<Rightarrow> 'a box list \<Rightarrow> 'a box list \<Rightarrow> py_error + 'a box list" where
  "combine_tuple_lists_with_mask msk default_list optional_list =
     combine_loop msk (zip default_list optional_list) []"

subsection \<open>handle\_same\_page\_size\_option\<close>

text \<open>
  The fields of the parsed command-line object that \<^verbatim>\<open>crop_utils.py\<close> reads. An option
  that was not given is \<open>None\<close> or an empty list; both are false in a Python condition.
  Text printed in verbose mode is not part of the model.
\<close>

text \<open>
  A number given for \<^verbatim>\<open>--setSamePageSize\<close> is a Python \<open>int\<close> or \<open>float\<close>. Box coordinates
  are numbers too, embedded in the reals: Python compares an \<open>int\<close> with a \<open>float\<close> by value.
\<close>

datatype pynum = PyInt int | PyFloat real

record cmd_args =
  verbose :: bool
  samePageSize :: bool
  setSamePageSize :: "pynum list option"
  samePageSizeOrderStat :: "int list option"
  samePageSize4 :: "string option"
  percentRetain :: "real list"
  percentRetain4 :: "real list option"
  absoluteOffset :: "real list"
  absoluteOffset4 :: "real list option"
  uniformOrderStat :: "int list option"
  uniformOrderStat4 :: "int list option"

text \<open>An object with no option of the same-page-size group given.\<close>

definition plain_args :: cmd_args where
  "plain_args =
     \<lparr> verbose = False, samePageSize = False, setSamePageSize = None,
       samePageSizeOrderStat = None, samePageSize4 = None,
       percentRetain = [10], percentRetain4 = None,
       absoluteOffset = [0], absoluteOffset4 = None,
       uniformOrderStat = None, uniformOrderStat4 = None \<rparr>"

fun truthy :: "'a list option \<Rightarrow> bool" where
  "truthy None = False"
| "truthy (Some xs) = (xs \<noteq> [])"

text \<open>
  \<^verbatim>\<open>float(f)\<close>. A float is returned as it is. An integer of at most 53 bits is exact; a
  longer one is rounded to 53 significant bits, a tie going to the even neighbour, and
  raises \<^verbatim>\<open>OverflowError\<close> when the rounded value reaches \<open>2 ^ 1024\<close>.
\<close>

function bit_length :: "nat \<Rightarrow> nat" where
  "bit_length n = (if n = 0 then 0 else Suc (bit_length (n div 2)))"
  by pat_completeness auto
termination
  by (relation "measure (\<lambda>n. n)") auto

declare bit_length.simps [simp del]

definition float_of_int :: "int \<Rightarrow> py_error + real" where
  "float_of_int i =
     (let m = nat \<bar>i\<bar>; n = bit_length m in
      if n \<le> 53 then Inr (of_int i)
      else
        let shift = n - 53;
            q = m div 2 ^ shift;
            r = m mod 2 ^ shift;
            half = 2 ^ (shift - 1);
            mag = (if half < r \<or> (r = half \<and> odd q) then q + 1 else q) * 2 ^ shift
        in if 2 ^ 1024 \<le> mag then Inl OverflowError
           else Inr (if i < 0 then - of_nat mag else of_nat mag))"

fun py_float :: "pynum \<Rightarrow> py_error + real" where
  "py_float (PyFloat x) = Inr x"
| "py_float (PyInt i) = float_of_int i"

text \<open>\<^verbatim>\<open>[float(f) for f in args.setSamePageSize]\<close>\<close>

fun float_each :: "pynum list \<Rightarrow> py_error + real list" where
  "float_each [] = Inr []"
| "float_each (f # fs) =
     and_then (py_float f) (\<lambda>x.
     and_then (float_each fs) (\<lambda>xs. Inr (x # xs)))"

text \<open>
  The first statements: \<^verbatim>\<open>if args.samePageSizeOrderStat:\<close> assigns \<^verbatim>\<open>args.samePageSize\<close>
  and clamps \<open>order_n\<close>. The result is the updated object and \<open>order_n\<close>.
\<close>

definition order_stat_option :: "cmd_args \<Rightarrow> int \<Rightarrow> cmd_args \<times> int" where
  "order_stat_option args num_pages_to_crop =
     (case samePageSizeOrderStat args of
        Some (n # ns) \<Rightarrow>
          (args\<lparr>samePageSize := True\<rparr>, max (min n (num_pages_to_crop - 1)) 0)
      | _ \<Rightarrow> (args, 0))"

text \<open>
  The last loop, \<^verbatim>\<open>for p_num, f_box in enumerate(full_page_box_list)\<close>, appending to
  \<^verbatim>\<open>new_full_page_box_list\<close>.
\<close>

fun merge_loop ::
  "nat \<Rightarrow> 'a box list \<Rightarrow> int list \<Rightarrow> 'a box list \<Rightarrow> 'a box list \<Rightarrow> py_error + 'a box list" where
  "merge_loop p_num [] page_nums_to_crop same_size_bounding_box_list new_full_page_box_list =
     Inr new_full_page_box_list"
| "merge_loop p_num (f_box # rest) page_nums_to_crop same_size_bounding_box_list
       new_full_page_box_list =
     (if int p_num \<notin> set page_nums_to_crop then
        merge_loop (Suc p_num) rest page_nums_to_crop same_size_bounding_box_list
          (new_full_page_box_list @ [f_box])
      else if p_num < length same_size_bounding_box_list then
        merge_loop (Suc p_num) rest page_nums_to_crop same_size_bounding_box_list
          (new_full_page_box_list @ [same_size_bounding_box_list ! p_num])
      else Inl IndexError)"

text \<open>
  The function returns the object it was given, as the call leaves it, and either the
  new page box list or the exception.
\<close>

definition handle_same_page_size_option ::
  "cmd_args \<Rightarrow> real box list \<Rightarrow> int list \<Rightarrow> int \<Rightarrow> cmd_args \<times> (py_error + real box list)" where
  "handle_same_page_size_option args0 full_page_box_list page_nums_to_crop num_pages_to_crop =
     (case order_stat_option args0 num_pages_to_crop of (args, order_n) \<Rightarrow>
        if \<not> (samePageSize args \<or> truthy (setSamePageSize args)) then
          (args, Inr full_page_box_list)
        else
          (args,
           and_then
             (if samePageSize args then
                calculate_same_size_bounding_box full_page_box_list page_nums_to_crop order_n
              else
                float_each (case setSamePageSize args of Some fs \<Rightarrow> fs | None \<Rightarrow> []))
             (\<lambda>same_size_bounding_box.
           and_then
             (if truthy (samePageSize4 args) then
                combine_tuple_lists_with_mask
                  (case samePageSize4 args of Some m \<Rightarrow> m | None \<Rightarrow> [])
                  full_page_box_list
                  (replicate (length full_page_box_list) (PyList same_size_bounding_box))
              else
                Inr (replicate (length full_page_box_list) (PyList same_size_bounding_box)))
             (\<lambda>same_size_bounding_box_list.
           merge_loop 0 full_page_box_list page_nums_to_crop same_size_bounding_box_list []))))"

subsection \<open>validate\_crop\_arguments\<close>

text \<open>
  The three values of the returned dictionary, in the order of its keys
  \<open>percent_retain_4\<close>, \<open>absolute_offset_4\<close>, \<open>uniform_order_stat_4\<close>. The function assigns
  nothing to \<open>args\<close> and copies the lists it returns; element \<open>0\<close> of an empty list raises.
\<close>

definition validate_crop_arguments ::
  "cmd_args \<Rightarrow> cmd_args \<times> (py_error + real list \<times> real list \<times> int list)" where
  "validate_crop_arguments args =
     (args,
      and_then
        (if \<not> truthy (percentRetain4 args) then
           and_then (getitem (percentRetain args) 0) (\<lambda>v. Inr (replicate 4 v))
         else Inr (case percentRetain4 args of Some vs \<Rightarrow> vs | None \<Rightarrow> []))
        (\<lambda>percent_retain_4.
      and_then
        (if \<not> truthy (absoluteOffset4 args) then
           and_then (getitem (absoluteOffset args) 0) (\<lambda>v. Inr (replicate 4 v))
         else Inr (case absoluteOffset4 args of Some vs \<Rightarrow> vs | None \<Rightarrow> []))
        (\<lambda>absolute_offset_4.
      and_then
        (if \<not> truthy (uniformOrderStat4 args) then
           (case uniformOrderStat args of
              Some (n # ns) \<Rightarrow> Inr (replicate 4 n)
            | _ \<Rightarrow> Inr (replicate 4 0))
         else Inr (case uniformOrderStat4 args of Some vs \<Rightarrow> vs | None \<Rightarrow> []))
        (\<lambda>uniform_order_stat_4.
      Inr (percent_retain_4, absolute_offset_4, uniform_order_stat_4)))))"

section \<open>Specification-level notions\<close>

text \<open>
  The per-edge rule of the masked combination in the specification's words: edge \<open>i\<close> of
  the result is the override's when mask character \<open>i\<close> is \<open>t\<close>, else the default's.
\<close>

definition edge_select :: "string \<Rightarrow> 'a list \<Rightarrow> 'a list \<Rightarrow> 'a list" where
  "edge_select msk d opt =
     map (\<lambda>i. if i < length msk \<and> msk ! i = CHR ''t'' then opt ! i else d ! i) [0..<length d]"

text \<open>
  \<^verbatim>\<open>combine_tuple_lists_with_mask\<close> is documented on lists of tuples and always returns
  tuples: \<open>as_tuple\<close> is a box with its entries held in a tuple, \<open>is_tuple\<close> says that it
  already is one.
\<close>

fun as_tuple :: "'a box \<Rightarrow> 'a box" where
  "as_tuple b = PyTuple (items b)"

fun is_tuple :: "'a box \<Rightarrow> bool" where
  "is_tuple (PyTuple xs) = True"
| "is_tuple (PyList xs) = False"

text \<open>
  The value of a number, and the numbers that \<^verbatim>\<open>float\<close> converts without rounding: every
  float, and every integer below \<open>2 ^ 53\<close> in magnitude.
\<close>

fun num_value :: "pynum \<Rightarrow> real" where
  "num_value (PyFloat x) = x"
| "num_value (PyInt i) = of_int i"

fun exact_float :: "pynum \<Rightarrow> bool" where
  "exact_float (PyFloat x) = True"
| "exact_float (PyInt i) = (\<bar>i\<bar> < 2 ^ 53)"

text \<open>Edge \<open>k\<close> of the box of page \<open>pg\<close>, for a page number within the list.\<close>

definition edge_of :: "'a box list \<Rightarrow> nat \<Rightarrow> int \<Rightarrow> 'a" where
  "edge_of boxes k pg = items (boxes ! nat pg) ! k"

section \<open>Properties of combine\_tuple\_lists\_with\_mask\<close>

text \<open>
  C1 (as the code has it). With mask \<open>tfft\<close>, default list \<open>[(1,2,3,4)]\<close> and override
  list \<open>[(10,20,30,40)]\<close>, \<open>combine_tuple_lists_with_mask\<close> returns \<open>[(10,2,3,40)]\<close>: edges
  0 and 3, where the mask has \<open>t\<close>, come from the override tuple, edges 1 and 2 from the
  default tuple.
\<close>

theorem combine_tfft_scenario:
  "combine_tuple_lists_with_mask ''tfft'' [PyTuple [1, 2, 3, 4 :: int]] [PyTuple [10, 20, 30, 40]]
     = Inr [PyTuple [10, 2, 3, 40]]"
  by (simp add: combine_tuple_lists_with_mask_def)

text \<open>
  C1 as stated fails: the result is not \<open>[(10,2,30,40)]\<close>, since mask character 2 is \<open>f\<close>.
\<close>

theorem combine_tfft_not_30:
  "combine_tuple_lists_with_mask ''tfft'' [PyTuple [1, 2, 3, 4 :: int]] [PyTuple [10, 20, 30, 40]]
     \<noteq> Inr [PyTuple [10, 2, 30, 40]]"
  by (simp add: combine_tuple_lists_with_mask_def)

lemma mask_loop_fits:
  "index + length msk \<le> length new \<Longrightarrow> length new \<le> length opt \<Longrightarrow>
   mask_loop index msk new opt =
     Inr (map (\<lambda>i. if index \<le> i \<and> i - index < length msk \<and> msk ! (i - index) = CHR ''t''
                     then opt ! i else new ! i) [0..<length new])"
proof (induction msk arbitrary: index new)
  case Nil
  then show ?case by (simp add: map_nth)
next
  case (Cons c cs)
  have len: "index < length new" "index < length opt" using Cons.prems by auto
  show ?case
  proof (cases "c = CHR ''t''")
    case True
    have "mask_loop index (c # cs) new opt = mask_loop (Suc index) cs (new[index := opt ! index]) opt"
      using True len by simp
    also have "\<dots> = Inr (map (\<lambda>i. if Suc index \<le> i \<and> i - Suc index < length cs \<and> cs ! (i - Suc index) = CHR ''t''
                     then opt ! i else (new[index := opt ! index]) ! i) [0..<length (new[index := opt ! index])])"
      using Cons.prems by (intro Cons.IH) auto
    also have "\<dots> = Inr (map (\<lambda>i. if index \<le> i \<and> i - index < length (c # cs) \<and> (c # cs) ! (i - index) = CHR ''t''
                     then opt ! i else new ! i) [0..<length new])"
      using True by (auto simp: nth_list_update nth_Cons' Suc_le_eq intro!: nth_equalityI)
    finally show ?thesis .
  next
    case False
    have "mask_loop index (c # cs) new opt = mask_loop (Suc index) cs new opt"
      using False by simp
    also have "\<dots> = Inr (map (\<lambda>i. if Suc index \<le> i \<and> i - Suc index < length cs \<and> cs ! (i - Suc index) = CHR ''t''
                     then opt ! i else new ! i) [0..<length new])"
      using Cons.prems by (intro Cons.IH) auto
    also have "\<dots> = Inr (map (\<lambda>i. if index \<le> i \<and> i - index < length (c # cs) \<and> (c # cs) ! (i - index) = CHR ''t''
                     then opt ! i else new ! i) [0..<length new])"
      using False by (auto simp: nth_Cons' Suc_le_eq intro!: nth_equalityI)
    finally show ?thesis .
  qed
qed

lemma mask_loop_edge_select:
  "length msk \<le> length d \<Longrightarrow> length d \<le> length opt \<Longrightarrow>
   mask_loop 0 msk d opt = Inr (edge_select msk d opt)"
  using mask_loop_fits[of 0 msk d opt] by (simp add: edge_select_def)

lemma combine_loop_fits:
  "\<forall>(d, opt) \<in> set ps. length msk \<le> length (items d) \<and> length (items d) \<le> length (items opt) \<Longrightarrow>
   combine_loop msk ps acc =
     Inr (acc @ map (\<lambda>(d, opt). PyTuple (edge_select msk (items d) (items opt))) ps)"
proof (induction ps arbitrary: acc)
  case Nil
  show ?case by simp
next
  case (Cons p ps)
  obtain d opt where p: "p = (d, opt)" by (cases p)
  have "mask_loop 0 msk (items d) (items opt) = Inr (edge_select msk (items d) (items opt))"
    using Cons.prems p by (intro mask_loop_edge_select) auto
  moreover have "combine_loop msk ps (acc @ [PyTuple (edge_select msk (items d) (items opt))]) =
     Inr ((acc @ [PyTuple (edge_select msk (items d) (items opt))]) @
          map (\<lambda>(d, opt). PyTuple (edge_select msk (items d) (items opt))) ps)"
    using Cons.prems by (intro Cons.IH) auto
  ultimately show ?case by (simp add: p)
qed

lemma combine_fits:
  assumes "\<forall>b \<in> set ds. length msk \<le> length (items b) \<and> length (items b) \<le> n"
    and "\<forall>b \<in> set os. n \<le> length (items b)"
  shows "combine_tuple_lists_with_mask msk ds os =
     Inr (map (\<lambda>(d, opt). PyTuple (edge_select msk (items d) (items opt))) (zip ds os))"
proof -
  have "\<forall>(d, opt) \<in> set (zip ds os). length msk \<le> length (items d) \<and> length (items d) \<le> length (items opt)"
  proof (clarify, intro conjI)
    fix d opt assume m: "(d, opt) \<in> set (zip ds os)"
    have d: "d \<in> set ds" and o: "opt \<in> set os"
      using m by (auto dest: set_zip_leftD set_zip_rightD)
    show "length msk \<le> length (items d)" using assms(1) d by blast
    have "length (items d) \<le> n" using assms(1) d by blast
    moreover have "n \<le> length (items opt)" using assms(2) o by blast
    ultimately show "length (items d) \<le> length (items opt)" by simp
  qed
  then show ?thesis
    unfolding combine_tuple_lists_with_mask_def by (simp add: combine_loop_fits)
qed

text \<open>
  C4 (as the code has it). Lists of different lengths raise no length-mismatch error:
  \<open>zip\<close> pairs the boxes up to the shorter length, and the call does exactly what it does
  on the two lists cut to that length.
\<close>

theorem combine_mismatch_truncates:
  "combine_tuple_lists_with_mask msk ds os =
     combine_tuple_lists_with_mask msk
       (take (min (length ds) (length os)) ds) (take (min (length ds) (length os)) os)"
proof -
  have "zip (take (min (length ds) (length os)) ds) (take (min (length ds) (length os)) os)
          = take (min (length ds) (length os)) (zip ds os)"
    by (simp add: take_zip)
  also have "\<dots> = zip ds os" by simp
  finally show ?thesis by (simp add: combine_tuple_lists_with_mask_def)
qed

lemma edge_select_ffff: "edge_select ''ffff'' d opt = d"
  by (auto simp: edge_select_def nth_Cons' intro!: nth_equalityI)

lemma edge_select_tttt:
  "length d = 4 \<Longrightarrow> length opt = 4 \<Longrightarrow> edge_select ''tttt'' d opt = opt"
  by (auto simp: edge_select_def nth_Cons' intro!: nth_equalityI)

lemma as_tuple_id: "is_tuple b \<Longrightarrow> as_tuple b = b"
  by (cases b) simp_all

lemma combine_ffff_as_tuple:
  assumes "length ds = length os"
    and "\<forall>b \<in> set ds. length (items b) = 4" and "\<forall>b \<in> set os. length (items b) = 4"
  shows "combine_tuple_lists_with_mask ''ffff'' ds os = Inr (map as_tuple ds)"
proof -
  have "combine_tuple_lists_with_mask ''ffff'' ds os =
      Inr (map (\<lambda>(d, opt). PyTuple (edge_select ''ffff'' (items d) (items opt))) (zip ds os))"
    using assms by (intro combine_fits[where n = 4]) simp_all
  moreover have "map (\<lambda>(d, opt). PyTuple (edge_select ''ffff'' (items d) (items opt))) (zip ds os)
      = map as_tuple ds"
    using assms by (intro nth_equalityI) (simp_all add: edge_select_ffff)
  ultimately show ?thesis by simp
qed

lemma combine_tttt_as_tuple:
  assumes "length ds = length os"
    and "\<forall>b \<in> set ds. length (items b) = 4" and "\<forall>b \<in> set os. length (items b) = 4"
  shows "combine_tuple_lists_with_mask ''tttt'' ds os = Inr (map as_tuple os)"
proof -
  have "combine_tuple_lists_with_mask ''tttt'' ds os =
      Inr (map (\<lambda>(d, opt). PyTuple (edge_select ''tttt'' (items d) (items opt))) (zip ds os))"
    using assms by (intro combine_fits[where n = 4]) simp_all
  moreover have "map (\<lambda>(d, opt). PyTuple (edge_select ''tttt'' (items d) (items opt))) (zip ds os)
      = map as_tuple os"
    using assms by (intro nth_equalityI) (simp_all add: edge_select_tttt)
  ultimately show ?thesis by simp
qed

text \<open>
  C6 (as the code has it). For lists of the same length whose boxes have four entries, mask
  \<open>ffff\<close> returns the boxes of the default list and mask \<open>tttt\<close> the boxes of the override
  list, each held in a tuple; for boxes that are tuples, as the function is documented,
  these are the default list and the override list themselves.
\<close>

theorem combine_ffff_tttt:
  assumes "length ds = length os"
    and "\<forall>b \<in> set ds. length (items b) = 4" and "\<forall>b \<in> set os. length (items b) = 4"
  shows "combine_tuple_lists_with_mask ''ffff'' ds os = Inr (map as_tuple ds)
       \<and> combine_tuple_lists_with_mask ''tttt'' ds os = Inr (map as_tuple os)
       \<and> ((\<forall>b \<in> set ds. is_tuple b) \<longrightarrow> combine_tuple_lists_with_mask ''ffff'' ds os = Inr ds)
       \<and> ((\<forall>b \<in> set os. is_tuple b) \<longrightarrow> combine_tuple_lists_with_mask ''tttt'' ds os = Inr os)"
proof (intro conjI impI)
  show f: "combine_tuple_lists_with_mask ''ffff'' ds os = Inr (map as_tuple ds)"
    using assms by (rule combine_ffff_as_tuple)
  show t: "combine_tuple_lists_with_mask ''tttt'' ds os = Inr (map as_tuple os)"
    using assms by (rule combine_tttt_as_tuple)
  show "combine_tuple_lists_with_mask ''ffff'' ds os = Inr ds" if "\<forall>b \<in> set ds. is_tuple b"
  proof -
    have "map as_tuple ds = ds" using that by (simp add: map_idI as_tuple_id del: as_tuple.simps)
    then show ?thesis using f by simp
  qed
  show "combine_tuple_lists_with_mask ''tttt'' ds os = Inr os" if "\<forall>b \<in> set os. is_tuple b"
  proof -
    have "map as_tuple os = os" using that by (simp add: map_idI as_tuple_id del: as_tuple.simps)
    then show ?thesis using t by simp
  qed
qed

theorem combine_ffff_tttt_witness:
  "combine_tuple_lists_with_mask ''ffff'' [PyTuple [1, 2, 3, 4 :: int], PyTuple [5, 6, 7, 8]]
       [PyTuple [10, 20, 30, 40], PyTuple [50, 60, 70, 80]]
     = Inr [PyTuple [1, 2, 3, 4], PyTuple [5, 6, 7, 8]]
   \<and> combine_tuple_lists_with_mask ''tttt'' [PyTuple [1, 2, 3, 4 :: int], PyTuple [5, 6, 7, 8]]
       [PyTuple [10, 20, 30, 40], PyTuple [50, 60, 70, 80]]
     = Inr [PyTuple [10, 20, 30, 40], PyTuple [50, 60, 70, 80]]"
  using combine_ffff_tttt[of "[PyTuple [1, 2, 3, 4 :: int], PyTuple [5, 6, 7, 8]]"
      "[PyTuple [10, 20, 30, 40], PyTuple [50, 60, 70, 80]]"]
  by simp

text \<open>
  C6 as stated fails on boxes that are lists, which is what
  \<open>handle_same_page_size_option\<close> passes as the override list: the returned boxes are
  tuples, so the result is neither the default list for \<open>ffff\<close> nor the override list for
  \<open>tttt\<close>.
\<close>

theorem combine_lists_not_returned:
  "length [PyList [1, 2, 3, 4 :: int]] = length [PyList [10, 20, 30, 40 :: int]]
   \<and> combine_tuple_lists_with_mask ''ffff'' [PyList [1, 2, 3, 4 :: int]] [PyList [10, 20, 30, 40]]
       \<noteq> Inr [PyList [1, 2, 3, 4]]
   \<and> combine_tuple_lists_with_mask ''tttt'' [PyList [1, 2, 3, 4 :: int]] [PyList [10, 20, 30, 40]]
       \<noteq> Inr [PyList [10, 20, 30, 40]]"
  by (simp add: combine_tuple_lists_with_mask_def)

text \<open>
  C10. For a mask of four characters and boxes of four entries, whatever the lengths of the
  two lists, the call returns; the result has the length of the shorter list, and entry
  \<open>p\<close> is the per-edge selection from the \<open>p\<close>-th boxes of the two lists, so the surplus
  boxes of the longer list are dropped.
\<close>

theorem combine_length_min:
  assumes "length msk = 4"
    and "\<forall>b \<in> set ds. length (items b) = 4" and "\<forall>b \<in> set os. length (items b) = 4"
  shows "\<exists>r. combine_tuple_lists_with_mask msk ds os = Inr r
       \<and> length r = min (length ds) (length os)
       \<and> (\<forall>p < min (length ds) (length os).
             r ! p = PyTuple (edge_select msk (items (ds ! p)) (items (os ! p))))"
proof -
  have "combine_tuple_lists_with_mask msk ds os =
      Inr (map (\<lambda>(d, opt). PyTuple (edge_select msk (items d) (items opt))) (zip ds os))"
    using assms by (intro combine_fits[where n = 4]) simp_all
  then show ?thesis by simp
qed

theorem combine_length_min_witness:
  "\<exists>r. combine_tuple_lists_with_mask ''tfft''
          [PyTuple [1, 2, 3, 4 :: int], PyTuple [5, 6, 7, 8], PyTuple [9, 10, 11, 12]]
          [PyTuple [10, 20, 30, 40]] = Inr r
     \<and> length r = 1 \<and> r ! 0 = PyTuple [10, 2, 3, 40]"
  using combine_length_min[of "''tfft''" "[PyTuple [1, 2, 3, 4 :: int], PyTuple [5, 6, 7, 8], PyTuple [9, 10, 11, 12]]"
     "[PyTuple [10, 20, 30, 40]]"]
  by (auto simp: edge_select_def)

text \<open>
  C4 as stated fails: a default list of two boxes and an override list of one box give a
  returned list of one box, not an error.
\<close>

theorem combine_mismatch_returns:
  "length [PyTuple [1, 2, 3, 4 :: int], PyTuple [5, 6, 7, 8]] \<noteq> length [PyTuple [10, 20, 30, 40 :: int]]
   \<and> combine_tuple_lists_with_mask ''ffff'' [PyTuple [1, 2, 3, 4 :: int], PyTuple [5, 6, 7, 8]]
       [PyTuple [10, 20, 30, 40]] = Inr [PyTuple [1, 2, 3, 4]]"
  by (simp add: combine_tuple_lists_with_mask_def)


section \<open>Properties of calculate\_same\_size\_bounding\_box\<close>

lemma getitem_nat: "0 \<le> i \<Longrightarrow> i < int (length seq) \<Longrightarrow> getitem seq i = Inr (seq ! nat i)"
  by (simp add: getitem_def)

lemma edge_values_valid:
  assumes "\<forall>pg \<in> set sel. 0 \<le> pg \<and> pg < int (length boxes)"
    and "\<forall>pg \<in> set sel. length (items (boxes ! nat pg)) = 4"
    and "k < 4"
  shows "edge_values boxes sel (int k) = Inr (map (\<lambda>pg. items (boxes ! nat pg) ! k) sel)"
  using assms
proof (induction sel)
  case Nil
  show ?case by simp
next
  case (Cons pg sel)
  have "getitem boxes pg = Inr (boxes ! nat pg)"
    using Cons.prems(1) by (simp add: getitem_nat)
  moreover have "getitem (items (boxes ! nat pg)) (int k) = Inr (items (boxes ! nat pg) ! k)"
    using Cons.prems(2,3) by (simp add: getitem_nat)
  moreover have "edge_values boxes sel (int k) = Inr (map (\<lambda>pg. items (boxes ! nat pg) ! k) sel)"
    using Cons.prems by (intro Cons.IH) simp_all
  ultimately show ?case by simp
qed

lemma calculate_valid:
  assumes "\<forall>pg \<in> set sel. 0 \<le> pg \<and> pg < int (length boxes)"
    and "\<forall>pg \<in> set sel. length (items (boxes ! nat pg)) = 4"
    and "0 \<le> n" and "n < int (length sel)"
  shows "calculate_same_size_bounding_box boxes sel n =
     Inr [sort (map (edge_of boxes 0) sel) ! nat n,
          sort (map (edge_of boxes 1) sel) ! nat n,
          rev (sort (map (edge_of boxes 2) sel)) ! nat n,
          rev (sort (map (edge_of boxes 3) sel)) ! nat n]"
proof -
  have e: "edge_values boxes sel (int k) = Inr (map (edge_of boxes k) sel)" if "k < 4" for k
    using edge_values_valid[OF assms(1,2) that] by (simp add: edge_of_def[abs_def])
  have e0: "edge_values boxes sel 0 = Inr (map (edge_of boxes 0) sel)" using e[of 0] by simp
  have e1: "edge_values boxes sel 1 = Inr (map (edge_of boxes 1) sel)" using e[of 1] by simp
  have e2: "edge_values boxes sel 2 = Inr (map (edge_of boxes 2) sel)" using e[of 2] by simp
  have e3: "edge_values boxes sel 3 = Inr (map (edge_of boxes 3) sel)" using e[of 3] by simp
  have g: "getitem xs n = Inr (xs ! nat n)" if "length xs = length sel" for xs :: "'a list"
    using that assms(3,4) by (simp add: getitem_nat)
  show ?thesis
    unfolding calculate_same_size_bounding_box_def e0 e1 e2 e3
    by (simp add: g)
qed

lemma sort_nth0_Min: "xs \<noteq> [] \<Longrightarrow> sort xs ! 0 = Min (set xs)"
proof -
  assume ne: "xs \<noteq> []"
  have len: "0 < length (sort xs)" using ne by simp
  have "Min (set (sort xs)) = sort xs ! 0"
  proof (rule Min_eqI)
    show "finite (set (sort xs))" by simp
    show "sort xs ! 0 \<in> set (sort xs)" using len by (rule nth_mem)
    fix y assume "y \<in> set (sort xs)"
    then obtain j where "j < length (sort xs)" "sort xs ! j = y" by (meson in_set_conv_nth)
    then show "sort xs ! 0 \<le> y" using sorted_nth_mono[of "sort xs" 0 j] by auto
  qed
  then show ?thesis by simp
qed

lemma rev_sort_nth0_Max: "xs \<noteq> [] \<Longrightarrow> rev (sort xs) ! 0 = Max (set xs)"
proof -
  assume ne: "xs \<noteq> []"
  have len: "0 < length (sort xs)" using ne by simp
  have r: "rev (sort xs) ! 0 = sort xs ! (length xs - 1)"
    using len by (simp add: rev_nth)
  have "Max (set (sort xs)) = sort xs ! (length xs - 1)"
  proof (rule Max_eqI)
    show "finite (set (sort xs))" by simp
    show "sort xs ! (length xs - 1) \<in> set (sort xs)" using len by (intro nth_mem) simp
    fix y assume "y \<in> set (sort xs)"
    then obtain j where "j < length (sort xs)" "sort xs ! j = y" by (meson in_set_conv_nth)
    then show "y \<le> sort xs ! (length xs - 1)"
      using sorted_nth_mono[of "sort xs" j "length xs - 1"] by auto
  qed
  then show ?thesis using r by simp
qed


text \<open>
  C2. For a non-empty selection of page numbers within the list, whose boxes have four
  entries, \<open>order_n = 0\<close> gives the box of the least left, the least bottom, the greatest
  right and the greatest top among the selected pages. On the boxes
  \<open>[[0,0,100,100],[10,10,110,110],[5,5,105,105]]\<close> with all three pages selected the result
  is \<open>[0,0,110,110]\<close> for \<open>order_n = 0\<close> and \<open>[5,5,105,105]\<close> for \<open>order_n = 1\<close>.
\<close>

theorem bounding_box_order_0:
  "(sel \<noteq> [] \<and> (\<forall>pg \<in> set sel. 0 \<le> pg \<and> pg < int (length boxes))
      \<and> (\<forall>pg \<in> set sel. length (items (boxes ! nat pg)) = 4)
    \<longrightarrow> calculate_same_size_bounding_box boxes sel 0 =
          Inr [Min (edge_of boxes 0 ` set sel), Min (edge_of boxes 1 ` set sel),
               Max (edge_of boxes 2 ` set sel), Max (edge_of boxes 3 ` set sel)])
   \<and> calculate_same_size_bounding_box
         [PyList [0, 0, 100, 100 :: int], PyList [10, 10, 110, 110], PyList [5, 5, 105, 105]]
         [0, 1, 2] 0 = Inr [0, 0, 110, 110]
   \<and> calculate_same_size_bounding_box
         [PyList [0, 0, 100, 100 :: int], PyList [10, 10, 110, 110], PyList [5, 5, 105, 105]]
         [0, 1, 2] 1 = Inr [5, 5, 105, 105]"
proof (intro conjI impI)
  assume a: "sel \<noteq> [] \<and> (\<forall>pg \<in> set sel. 0 \<le> pg \<and> pg < int (length boxes))
      \<and> (\<forall>pg \<in> set sel. length (items (boxes ! nat pg)) = 4)"
  have ne: "map (edge_of boxes k) sel \<noteq> []" for k using a by simp
  have "calculate_same_size_bounding_box boxes sel 0 =
     Inr [sort (map (edge_of boxes 0) sel) ! nat 0,
          sort (map (edge_of boxes 1) sel) ! nat 0,
          rev (sort (map (edge_of boxes 2) sel)) ! nat 0,
          rev (sort (map (edge_of boxes 3) sel)) ! nat 0]"
    using a by (intro calculate_valid) simp_all
  then show "calculate_same_size_bounding_box boxes sel 0 =
          Inr [Min (edge_of boxes 0 ` set sel), Min (edge_of boxes 1 ` set sel),
               Max (edge_of boxes 2 ` set sel), Max (edge_of boxes 3 ` set sel)]"
    using sort_nth0_Min[OF ne] rev_sort_nth0_Max[OF ne] by simp
next
  show "calculate_same_size_bounding_box
         [PyList [0, 0, 100, 100 :: int], PyList [10, 10, 110, 110], PyList [5, 5, 105, 105]]
         [0, 1, 2] 0 = Inr [0, 0, 110, 110]"
    by (simp add: calculate_same_size_bounding_box_def getitem_def)
next
  show "calculate_same_size_bounding_box
         [PyList [0, 0, 100, 100 :: int], PyList [10, 10, 110, 110], PyList [5, 5, 105, 105]]
         [0, 1, 2] 1 = Inr [5, 5, 105, 105]"
    by (simp add: calculate_same_size_bounding_box_def getitem_def)
qed

theorem bounding_box_order_0_witness:
  "calculate_same_size_bounding_box [PyList [3, 4, 50, 60 :: int], PyList [1, 7, 40, 90]] [1, 0] 0
     = Inr [1, 4, 50, 90]"
proof -
  have "[1, 0 :: int] \<noteq> [] \<and> (\<forall>pg \<in> set [1, 0 :: int]. 0 \<le> pg
            \<and> pg < int (length [PyList [3, 4, 50, 60 :: int], PyList [1, 7, 40, 90]]))
      \<and> (\<forall>pg \<in> set [1, 0 :: int].
            length (items ([PyList [3, 4, 50, 60 :: int], PyList [1, 7, 40, 90]] ! nat pg)) = 4)"
    by simp
  then have "calculate_same_size_bounding_box [PyList [3, 4, 50, 60 :: int], PyList [1, 7, 40, 90]] [1, 0] 0 =
          Inr [Min (edge_of [PyList [3, 4, 50, 60 :: int], PyList [1, 7, 40, 90]] 0 ` set [1, 0]),
               Min (edge_of [PyList [3, 4, 50, 60 :: int], PyList [1, 7, 40, 90]] 1 ` set [1, 0]),
               Max (edge_of [PyList [3, 4, 50, 60 :: int], PyList [1, 7, 40, 90]] 2 ` set [1, 0]),
               Max (edge_of [PyList [3, 4, 50, 60 :: int], PyList [1, 7, 40, 90]] 3 ` set [1, 0])]"
    using bounding_box_order_0[of "[1, 0]" "[PyList [3, 4, 50, 60 :: int], PyList [1, 7, 40, 90]]"]
    by blast
  then show ?thesis by (simp add: edge_of_def)
qed

lemma rev_sort_nth_mono:
  assumes "Suc i < length xs"
  shows "rev (sort xs) ! Suc i \<le> rev (sort xs) ! i"
proof -
  have "rev (sort xs) ! Suc i = sort xs ! (length xs - Suc (Suc i))"
    using assms by (simp add: rev_nth)
  moreover have "rev (sort xs) ! i = sort xs ! (length xs - Suc i)"
    using assms by (simp add: rev_nth)
  moreover have "sort xs ! (length xs - Suc (Suc i)) \<le> sort xs ! (length xs - Suc i)"
    using assms by (intro sorted_nth_mono) simp_all
  ultimately show ?thesis by simp
qed

lemma sort_nth_mono:
  assumes "Suc i < length xs"
  shows "sort xs ! i \<le> sort xs ! Suc i"
  using assms by (intro sorted_nth_mono) simp_all

text \<open>
  C3. For a selection of page numbers within the list, whose boxes have four entries, and
  \<open>0 \<le> order_n\<close> with \<open>order_n + 1\<close> below the size of the selection, both calls return,
  and the box for \<open>order_n + 1\<close> has left and bottom no smaller and right and top no larger
  than the box for \<open>order_n\<close>.
\<close>

theorem bounding_box_monotone:
  assumes "\<forall>pg \<in> set sel. 0 \<le> pg \<and> pg < int (length boxes)"
    and "\<forall>pg \<in> set sel. length (items (boxes ! nat pg)) = 4"
    and "0 \<le> n" and "n + 1 < int (card (set sel))"
  shows "\<exists>a b. calculate_same_size_bounding_box boxes sel n = Inr a
             \<and> calculate_same_size_bounding_box boxes sel (n + 1) = Inr b
             \<and> length a = 4 \<and> length b = 4
             \<and> a ! 0 \<le> b ! 0 \<and> a ! 1 \<le> b ! 1 \<and> b ! 2 \<le> a ! 2 \<and> b ! 3 \<le> a ! 3"
proof -
  have "card (set sel) \<le> length sel" by (rule card_length)
  then have lt: "n + 1 < int (length sel)" using assms(4) by simp
  have suc: "nat (n + 1) = Suc (nat n)" using assms(3) by simp
  have i: "Suc (nat n) < length (map (edge_of boxes k) sel)" for k
    using lt assms(3) by simp
  have a: "calculate_same_size_bounding_box boxes sel n =
     Inr [sort (map (edge_of boxes 0) sel) ! nat n,
          sort (map (edge_of boxes 1) sel) ! nat n,
          rev (sort (map (edge_of boxes 2) sel)) ! nat n,
          rev (sort (map (edge_of boxes 3) sel)) ! nat n]"
    using assms(1,2,3) lt by (intro calculate_valid) simp_all
  have b: "calculate_same_size_bounding_box boxes sel (n + 1) =
     Inr [sort (map (edge_of boxes 0) sel) ! Suc (nat n),
          sort (map (edge_of boxes 1) sel) ! Suc (nat n),
          rev (sort (map (edge_of boxes 2) sel)) ! Suc (nat n),
          rev (sort (map (edge_of boxes 3) sel)) ! Suc (nat n)]"
    using calculate_valid[OF assms(1,2), of "n + 1"] assms(3) lt suc by simp
  show ?thesis
    unfolding a b
    using sort_nth_mono[OF i[of 0]] sort_nth_mono[OF i[of 1]]
      rev_sort_nth_mono[OF i[of 2]] rev_sort_nth_mono[OF i[of 3]]
    by simp
qed

theorem bounding_box_monotone_witness:
  "\<exists>a b. calculate_same_size_bounding_box
            [PyList [0, 0, 100, 100 :: int], PyList [10, 10, 110, 110], PyList [5, 5, 105, 105]]
            [0, 1, 2] 0 = Inr a
       \<and> calculate_same_size_bounding_box
            [PyList [0, 0, 100, 100 :: int], PyList [10, 10, 110, 110], PyList [5, 5, 105, 105]]
            [0, 1, 2] (0 + 1) = Inr b
       \<and> length a = 4 \<and> length b = 4
       \<and> a ! 0 \<le> b ! 0 \<and> a ! 1 \<le> b ! 1 \<and> b ! 2 \<le> a ! 2 \<and> b ! 3 \<le> a ! 3"
  by (rule bounding_box_monotone) (simp_all add: nth_Cons')


section \<open>Properties of validate\_settings\<close>

lemmas validate_defs =
  validate_settings_def check_res_x_def check_res_y_def check_percent_retain_4_def
  check_absolute_precrop_4_def

text \<open>
  C5. With \<open>res_x = -5\<close>, a positive \<open>res_y\<close> and two lists of four, \<open>validate_settings\<close>
  sets \<open>res_x\<close> to 72, changes nothing else and returns exactly one warning, which names
  the X resolution. In every state each resolution that is not positive becomes the default
  DPI, and the warnings are, in order, one per repaired field. The method has no raising
  step on these fields.
\<close>

theorem validate_settings_repairs:
  "(res_x c = - 5 \<and> 0 < res_y c \<and> \<not> not_list_of_4 (percent_retain_4 c)
      \<and> \<not> not_list_of_4 (absolute_precrop_4 c)
    \<longrightarrow> validate_settings c = (c\<lparr>res_x := 72\<rparr>, [''Invalid X resolution, reset to 72'']))
   \<and> sublist ''X resolution'' ''Invalid X resolution, reset to 72''
   \<and> res_x (fst (validate_settings c)) = (if res_x c \<le> 0 then DEFAULT_DPI else res_x c)
   \<and> res_y (fst (validate_settings c)) = (if res_y c \<le> 0 then DEFAULT_DPI else res_y c)
   \<and> snd (validate_settings c) =
        (if res_x c \<le> 0 then [''Invalid X resolution, reset to 72''] else [])
      @ (if res_y c \<le> 0 then [''Invalid Y resolution, reset to 72''] else [])
      @ (if not_list_of_4 (percent_retain_4 c) then [''Fixed percent_retain_4 to have 4 values''] else [])
      @ (if not_list_of_4 (absolute_precrop_4 c) then [''Fixed absolute_precrop_4 to have 4 values''] else [])"
proof (intro conjI impI)
  assume "res_x c = - 5 \<and> 0 < res_y c \<and> \<not> not_list_of_4 (percent_retain_4 c)
      \<and> \<not> not_list_of_4 (absolute_precrop_4 c)"
  then show "validate_settings c = (c\<lparr>res_x := 72\<rparr>, [''Invalid X resolution, reset to 72''])"
    by (simp add: validate_defs DEFAULT_DPI_def)
next
  have "''Invalid X resolution, reset to 72'' = ''Invalid '' @ ''X resolution'' @ '', reset to 72''"
    by simp
  then show "sublist ''X resolution'' ''Invalid X resolution, reset to 72''"
    unfolding sublist_def by blast
next
  show "res_x (fst (validate_settings c)) = (if res_x c \<le> 0 then DEFAULT_DPI else res_x c)"
    by (simp add: validate_defs)
next
  show "res_y (fst (validate_settings c)) = (if res_y c \<le> 0 then DEFAULT_DPI else res_y c)"
    by (simp add: validate_defs)
next
  show "snd (validate_settings c) =
        (if res_x c \<le> 0 then [''Invalid X resolution, reset to 72''] else [])
      @ (if res_y c \<le> 0 then [''Invalid Y resolution, reset to 72''] else [])
      @ (if not_list_of_4 (percent_retain_4 c) then [''Fixed percent_retain_4 to have 4 values''] else [])
      @ (if not_list_of_4 (absolute_precrop_4 c) then [''Fixed absolute_precrop_4 to have 4 values''] else [])"
    by (simp add: validate_defs)
qed

theorem validate_settings_repairs_witness:
  "validate_settings (set_default_values\<lparr>res_x := - 5\<rparr>)
     = (set_default_values\<lparr>res_x := 72\<rparr>, [''Invalid X resolution, reset to 72''])"
proof -
  have "res_x (set_default_values\<lparr>res_x := - 5\<rparr>) = - 5
      \<and> 0 < res_y (set_default_values\<lparr>res_x := - 5\<rparr>)
      \<and> \<not> not_list_of_4 (percent_retain_4 (set_default_values\<lparr>res_x := - 5\<rparr>))
      \<and> \<not> not_list_of_4 (absolute_precrop_4 (set_default_values\<lparr>res_x := - 5\<rparr>))"
    by (simp add: set_default_values_def DEFAULT_DPI_def)
  then have "validate_settings (set_default_values\<lparr>res_x := - 5\<rparr>)
     = (set_default_values\<lparr>res_x := - 5\<rparr>\<lparr>res_x := 72\<rparr>, [''Invalid X resolution, reset to 72''])"
    using validate_settings_repairs[of "set_default_values\<lparr>res_x := - 5\<rparr>"] by blast
  then show ?thesis by simp
qed

text \<open>
  C9. After one call of \<open>validate_settings\<close>, in any state, a second call changes no
  field and returns no warning.
\<close>

theorem validate_settings_idempotent:
  "validate_settings (fst (validate_settings c)) = (fst (validate_settings c), [])"
  by (simp add: validate_defs DEFAULT_DPI_def)

theorem validate_settings_idempotent_witness:
  "validate_settings (fst (validate_settings
       (set_default_values\<lparr>res_x := - 5, res_y := 0, percent_retain_4 := PyNone,
          absolute_precrop_4 := PyTupleV [PyNum 1, PyNum 2, PyNum 3, PyNum 4]\<rparr>)))
   = (set_default_values, [])
   \<and> length (snd (validate_settings
       (set_default_values\<lparr>res_x := - 5, res_y := 0, percent_retain_4 := PyNone,
          absolute_precrop_4 := PyTupleV [PyNum 1, PyNum 2, PyNum 3, PyNum 4]\<rparr>))) = 4"
proof -
  have "fst (validate_settings
       (set_default_values\<lparr>res_x := - 5, res_y := 0, percent_retain_4 := PyNone,
          absolute_precrop_4 := PyTupleV [PyNum 1, PyNum 2, PyNum 3, PyNum 4]\<rparr>)) = set_default_values"
    by (simp add: validate_defs set_default_values_def)
  moreover have "length (snd (validate_settings
       (set_default_values\<lparr>res_x := - 5, res_y := 0, percent_retain_4 := PyNone,
          absolute_precrop_4 := PyTupleV [PyNum 1, PyNum 2, PyNum 3, PyNum 4]\<rparr>))) = 4"
    by (simp add: validate_defs set_default_values_def)
  ultimately show ?thesis
    using validate_settings_idempotent[of "set_default_values\<lparr>res_x := - 5, res_y := 0, percent_retain_4 := PyNone,
          absolute_precrop_4 := PyTupleV [PyNum 1, PyNum 2, PyNum 3, PyNum 4]\<rparr>"]
    by simp
qed

section \<open>Properties of handle\_same\_page\_size\_option\<close>

lemma handle_fst:
  "fst (handle_same_page_size_option args boxes sel num) = fst (order_stat_option args num)"
  by (simp add: handle_same_page_size_option_def split: prod.splits)

lemma handle_args_after:
  "fst (handle_same_page_size_option args boxes sel num) =
     (if truthy (samePageSizeOrderStat args) then args\<lparr>samePageSize := True\<rparr> else args)"
  by (simp add: handle_fst order_stat_option_def split: option.splits list.splits)

text \<open>
  C7 (as the code has it). Of the operations that are given a settings object,
  \<open>handle_same_page_size_option\<close> changes no field of \<open>args\<close> but \<open>samePageSize\<close>, which it
  sets when \<open>samePageSizeOrderStat\<close> is given and not empty; otherwise \<open>args\<close> is as before,
  for every input, also when the call raises. \<open>validate_crop_arguments\<close> leaves \<open>args\<close> as
  it is, and so do the read methods of \<open>PageConfiguration\<close> with their object.
\<close>

theorem settings_object_frame:
  "fst (handle_same_page_size_option args boxes sel num) =
     (if truthy (samePageSizeOrderStat args) then args\<lparr>samePageSize := True\<rparr> else args)
   \<and> fst (validate_crop_arguments args) = args
   \<and> fst (get_resolution_tuple self) = self
   \<and> fst (is_verbose_mode self) = self
   \<and> fst (has_password self) = self
   \<and> fst (get_password self) = self
   \<and> fst (should_write_crop_data self) = self
   \<and> fst (get_crop_data_filename self) = self"
  by (simp add: handle_args_after validate_crop_arguments_def get_resolution_tuple_def
        is_verbose_mode_def has_password_def get_password_def should_write_crop_data_def
        get_crop_data_filename_def)

theorem settings_object_frame_witness:
  "fst (handle_same_page_size_option
          (plain_args\<lparr>setSamePageSize := Some [PyInt 0, PyInt 0, PyFloat 50, PyFloat 50]\<rparr>)
          [PyList [0, 0, 100, 100]] [0] 1)
     = plain_args\<lparr>setSamePageSize := Some [PyInt 0, PyInt 0, PyFloat 50, PyFloat 50]\<rparr>
   \<and> fst (validate_crop_arguments (plain_args\<lparr>percentRetain4 := Some [1, 2, 3, 4]\<rparr>))
     = plain_args\<lparr>percentRetain4 := Some [1, 2, 3, 4]\<rparr>
   \<and> fst (get_resolution_tuple set_default_values) = set_default_values"
  using
    settings_object_frame[of
      "plain_args\<lparr>setSamePageSize := Some [PyInt 0, PyInt 0, PyFloat 50, PyFloat 50]\<rparr>"
      "[PyList [0, 0, 100, 100]]" "[0]" 1 set_default_values]
    settings_object_frame[of "plain_args\<lparr>percentRetain4 := Some [1, 2, 3, 4]\<rparr>"
      "[]" "[]" 0 set_default_values]
  by (simp add: plain_args_def)

text \<open>
  C7 as stated fails: with \<open>samePageSizeOrderStat = [1]\<close> and \<open>samePageSize\<close> false before
  the call, \<open>samePageSize\<close> is true after it.
\<close>

theorem handle_mutates_args:
  "samePageSize (fst (handle_same_page_size_option
       (plain_args\<lparr>samePageSizeOrderStat := Some [1]\<rparr>) [PyList [0, 0, 100, 100]] [0] 1))
   \<noteq> samePageSize (plain_args\<lparr>samePageSizeOrderStat := Some [1]\<rparr>)"
  by (simp add: handle_fst order_stat_option_def plain_args_def)

lemma merge_loop_frame:
  "merge_loop p rest sel bbl acc = Inr out \<Longrightarrow>
   length out = length acc + length rest
   \<and> (\<forall>i < length acc. out ! i = acc ! i)
   \<and> (\<forall>j < length rest. int (p + j) \<notin> set sel \<longrightarrow> out ! (length acc + j) = rest ! j)
   \<and> (\<forall>j < length rest. int (p + j) \<in> set sel \<longrightarrow> out ! (length acc + j) = bbl ! (p + j))"
proof (induction rest arbitrary: p acc)
  case Nil
  then show ?case by simp
next
  case (Cons f_box rest)
  define x where "x = (if int p \<notin> set sel then f_box else bbl ! p)"
  have step: "merge_loop (Suc p) rest sel bbl (acc @ [x]) = Inr out"
    using Cons.prems by (auto simp: x_def split: if_splits)
  note ih = Cons.IH[OF step]
  have len: "length out = length acc + length (f_box # rest)" using ih by simp
  have pre: "\<forall>i < length acc. out ! i = acc ! i"
  proof (intro allI impI)
    fix i assume i: "i < length acc"
    then have "out ! i = (acc @ [x]) ! i" using ih by simp
    then show "out ! i = acc ! i" using i by (simp add: nth_append)
  qed
  have at: "out ! length acc = x"
  proof -
    have "out ! length acc = (acc @ [x]) ! length acc" using ih by simp
    then show ?thesis by simp
  qed
  have rest: "out ! (length acc + Suc j) = rest ! j" if "j < length rest" "int (Suc p + j) \<notin> set sel" for j
    using ih that by simp
  have rest': "out ! (length acc + Suc j) = bbl ! (Suc p + j)" if "j < length rest" "int (Suc p + j) \<in> set sel" for j
    using ih that by simp
  have out1: "\<forall>j < length (f_box # rest). int (p + j) \<notin> set sel \<longrightarrow> out ! (length acc + j) = (f_box # rest) ! j"
  proof (intro allI impI)
    fix j assume j: "j < length (f_box # rest)" and n: "int (p + j) \<notin> set sel"
    show "out ! (length acc + j) = (f_box # rest) ! j"
    proof (cases j)
      case 0
      then show ?thesis using at n by (simp add: x_def)
    next
      case (Suc k)
      then show ?thesis using rest[of k] j n by simp
    qed
  qed
  have out2: "\<forall>j < length (f_box # rest). int (p + j) \<in> set sel \<longrightarrow> out ! (length acc + j) = bbl ! (p + j)"
  proof (intro allI impI)
    fix j assume j: "j < length (f_box # rest)" and n: "int (p + j) \<in> set sel"
    show "out ! (length acc + j) = bbl ! (p + j)"
    proof (cases j)
      case 0
      then show ?thesis using at n by (simp add: x_def)
    next
      case (Suc k)
      then show ?thesis using rest'[of k] j n by simp
    qed
  qed
  show ?case using len pre out1 out2 by blast
qed

lemma merge_loop_returns:
  "p + length rest \<le> length bbl \<Longrightarrow> \<exists>out. merge_loop p rest sel bbl acc = Inr out"
  by (induction rest arbitrary: p acc) auto

lemma and_then_Inr: "and_then r f = Inr y \<Longrightarrow> \<exists>v. r = Inr v \<and> f v = Inr y"
  by (cases r) simp_all

lemma handle_snd_cases:
  assumes "snd (handle_same_page_size_option args boxes sel num) = Inr out"
  shows "out = boxes \<or> (\<exists>bbl. merge_loop 0 boxes sel bbl [] = Inr out)"
proof -
  obtain args1 n where os: "order_stat_option args num = (args1, n)"
    by (cases "order_stat_option args num")
  show ?thesis
  proof (cases "\<not> (samePageSize args1 \<or> truthy (setSamePageSize args1))")
    case True
    then have "snd (handle_same_page_size_option args boxes sel num) = Inr boxes"
      by (simp add: handle_same_page_size_option_def os)
    then show ?thesis using assms by simp
  next
    case False
    have "snd (handle_same_page_size_option args boxes sel num) =
       and_then
         (if samePageSize args1 then calculate_same_size_bounding_box boxes sel n
          else float_each (case setSamePageSize args1 of Some fs \<Rightarrow> fs | None \<Rightarrow> []))
         (\<lambda>bb. and_then
             (if truthy (samePageSize4 args1) then
                combine_tuple_lists_with_mask
                  (case samePageSize4 args1 of Some m \<Rightarrow> m | None \<Rightarrow> []) boxes
                  (replicate (length boxes) (PyList bb))
              else Inr (replicate (length boxes) (PyList bb)))
             (\<lambda>bbl. merge_loop 0 boxes sel bbl []))"
      by (simp only: handle_same_page_size_option_def os prod.case if_not_P[OF False] if_False snd_conv)
    with assms have "and_then
         (if samePageSize args1 then calculate_same_size_bounding_box boxes sel n
          else float_each (case setSamePageSize args1 of Some fs \<Rightarrow> fs | None \<Rightarrow> []))
         (\<lambda>bb. and_then
             (if truthy (samePageSize4 args1) then
                combine_tuple_lists_with_mask
                  (case samePageSize4 args1 of Some m \<Rightarrow> m | None \<Rightarrow> []) boxes
                  (replicate (length boxes) (PyList bb))
              else Inr (replicate (length boxes) (PyList bb)))
             (\<lambda>bbl. merge_loop 0 boxes sel bbl [])) = Inr out"
      by simp
    from and_then_Inr[OF this] obtain bb where "and_then
             (if truthy (samePageSize4 args1) then
                combine_tuple_lists_with_mask
                  (case samePageSize4 args1 of Some m \<Rightarrow> m | None \<Rightarrow> []) boxes
                  (replicate (length boxes) (PyList bb))
              else Inr (replicate (length boxes) (PyList bb)))
             (\<lambda>bbl. merge_loop 0 boxes sel bbl []) = Inr out"
      by blast
    from and_then_Inr[OF this] obtain bbl where "merge_loop 0 boxes sel bbl [] = Inr out"
      by blast
    then show ?thesis by blast
  qed
qed

text \<open>
  C8. Whenever \<open>handle_same_page_size_option\<close> returns a list, it has the length of the
  input list, and at every index outside the selection it holds the input's box.
\<close>

theorem handle_frame:
  assumes "snd (handle_same_page_size_option args boxes sel num) = Inr out"
  shows "length out = length boxes
       \<and> (\<forall>p < length boxes. int p \<notin> set sel \<longrightarrow> out ! p = boxes ! p)"
  using handle_snd_cases[OF assms]
proof
  assume "out = boxes"
  then show ?thesis by simp
next
  assume "\<exists>bbl. merge_loop 0 boxes sel bbl [] = Inr out"
  then obtain bbl where "merge_loop 0 boxes sel bbl [] = Inr out" by blast
  from merge_loop_frame[OF this] show ?thesis by simp
qed

theorem handle_frame_witness:
  "snd (handle_same_page_size_option
     (plain_args\<lparr>samePageSize := True, samePageSize4 := Some ''tfft''\<rparr>)
     [PyList [0, 0, 100, 100], PyList [10, 10, 110, 110], PyList [5, 5, 105, 105]] [0, 2] 2)
    = Inr [PyTuple [0, 0, 100, 105], PyList [10, 10, 110, 110], PyTuple [0, 5, 105, 105]]
   \<and> length [PyTuple [0, 0, 100, 105], PyList [10, 10, 110, 110], PyTuple [0, 5, 105, 105 :: real]]
       = length [PyList [0, 0, 100, 100], PyList [10, 10, 110, 110], PyList [5, 5, 105, 105 :: real]]
   \<and> [PyTuple [0, 0, 100, 105], PyList [10, 10, 110, 110], PyTuple [0, 5, 105, 105 :: real]] ! 1
       = [PyList [0, 0, 100, 100], PyList [10, 10, 110, 110], PyList [5, 5, 105, 105 :: real]] ! 1"
proof -
  have r: "snd (handle_same_page_size_option
     (plain_args\<lparr>samePageSize := True, samePageSize4 := Some ''tfft''\<rparr>)
     [PyList [0, 0, 100, 100], PyList [10, 10, 110, 110], PyList [5, 5, 105, 105]] [0, 2] 2)
    = Inr [PyTuple [0, 0, 100, 105], PyList [10, 10, 110, 110], PyTuple [0, 5, 105, 105]]"
    by (simp add: handle_same_page_size_option_def order_stat_option_def plain_args_def
          calculate_same_size_bounding_box_def combine_tuple_lists_with_mask_def getitem_def)
  from handle_frame[OF r] show ?thesis using r by simp
qed

lemma bit_length_le: "m < 2 ^ k \<Longrightarrow> bit_length m \<le> k"
proof (induction k arbitrary: m)
  case 0
  then show ?case by (simp add: bit_length.simps)
next
  case (Suc k)
  show ?case
  proof (cases "m = 0")
    case True
    then show ?thesis by (simp add: bit_length.simps)
  next
    case False
    have "m div 2 < 2 ^ k" using Suc.prems by auto
    then have "bit_length (m div 2) \<le> k" by (rule Suc.IH)
    then show ?thesis using False by (subst bit_length.simps) simp
  qed
qed

lemma py_float_exact: "exact_float f \<Longrightarrow> py_float f = Inr (num_value f)"
proof (cases f)
  case (PyInt i)
  assume "exact_float f"
  then have "nat \<bar>i\<bar> < 2 ^ 53" using PyInt by simp
  then have "bit_length (nat \<bar>i\<bar>) \<le> 53" by (rule bit_length_le)
  then show ?thesis using PyInt by (simp add: float_of_int_def Let_def)
next
  case (PyFloat x)
  then show ?thesis by simp
qed

lemma float_each_exact:
  "\<forall>f \<in> set fs. exact_float f \<Longrightarrow> float_each fs = Inr (map num_value fs)"
  by (induction fs) (simp_all add: py_float_exact del: py_float.simps)

lemma order_stat_option_range:
  "0 \<le> snd (order_stat_option args num) \<and> snd (order_stat_option args num) \<le> max (num - 1) 0"
  by (auto simp: order_stat_option_def split: option.splits list.splits)

lemma handle_returns:
  assumes sel: "sel \<noteq> []" "\<forall>pg \<in> set sel. 0 \<le> pg \<and> pg < int (length boxes)"
    and boxes: "\<forall>b \<in> set boxes. length (items b) = 4"
    and num: "num = int (length sel)"
    and msk: "\<forall>m. samePageSize4 args = Some m \<longrightarrow> m = [] \<or> length m = 4"
    and fixed: "\<forall>fs. setSamePageSize args = Some fs \<longrightarrow>
                  fs = [] \<or> length fs = 4 \<and> (\<forall>f \<in> set fs. exact_float f)"
  shows "\<exists>out. snd (handle_same_page_size_option args boxes sel num) = Inr out"
proof -
  obtain args1 n where os: "order_stat_option args num = (args1, n)"
    by (cases "order_stat_option args num")
  have n: "0 \<le> n" "n < int (length sel)"
    using order_stat_option_range[of args num] os sel(1) num by auto
  have same: "samePageSize4 args1 = samePageSize4 args" "setSamePageSize args1 = setSamePageSize args"
    using os by (auto simp: order_stat_option_def split: option.splits list.splits)
  show ?thesis
  proof (cases "\<not> (samePageSize args1 \<or> truthy (setSamePageSize args1))")
    case True
    then show ?thesis by (simp add: handle_same_page_size_option_def os)
  next
    case False
    have sel4: "\<forall>pg \<in> set sel. length (items (boxes ! nat pg)) = 4"
    proof
      fix pg assume "pg \<in> set sel"
      then have "nat pg < length boxes" using sel(2) by auto
      then have "boxes ! nat pg \<in> set boxes" by (rule nth_mem)
      then show "length (items (boxes ! nat pg)) = 4" using boxes by blast
    qed
    have "\<exists>bb. (if samePageSize args1 then calculate_same_size_bounding_box boxes sel n
          else float_each (case setSamePageSize args1 of Some fs \<Rightarrow> fs | None \<Rightarrow> []))
          = Inr bb \<and> length bb = 4"
    proof (cases "samePageSize args1")
      case True
      then show ?thesis using calculate_valid[OF sel(2) sel4 n] by simp
    next
      case no: False
      then have "truthy (setSamePageSize args1)" using False by simp
      then obtain fs where fs: "setSamePageSize args1 = Some fs" "fs \<noteq> []"
        by (cases "setSamePageSize args1") auto
      then have "length fs = 4" "\<forall>f \<in> set fs. exact_float f"
        using fixed same by auto
      then have "float_each fs = Inr (map num_value fs) \<and> length (map num_value fs) = 4"
        by (simp add: float_each_exact)
      then show ?thesis using no fs by simp
    qed
    then obtain bb where bb: "(if samePageSize args1 then calculate_same_size_bounding_box boxes sel n
          else float_each (case setSamePageSize args1 of Some fs \<Rightarrow> fs | None \<Rightarrow> []))
          = Inr bb" and len: "length bb = 4" by blast
    have "\<exists>bbl. (if truthy (samePageSize4 args1) then
                combine_tuple_lists_with_mask
                  (case samePageSize4 args1 of Some m \<Rightarrow> m | None \<Rightarrow> []) boxes
                  (replicate (length boxes) (PyList bb))
              else Inr (replicate (length boxes) (PyList bb))) = Inr bbl \<and> length bbl = length boxes"
    proof (cases "truthy (samePageSize4 args1)")
      case True
      then obtain m where m: "samePageSize4 args1 = Some m" "length m = 4"
        using msk same by (cases "samePageSize4 args") auto
      have "combine_tuple_lists_with_mask m boxes (replicate (length boxes) (PyList bb)) =
          Inr (map (\<lambda>(d, opt). PyTuple (edge_select m (items d) (items opt)))
                 (zip boxes (replicate (length boxes) (PyList bb))))"
        using boxes m(2) len by (intro combine_fits[where n = 4]) simp_all
      then show ?thesis using True m by simp
    next
      case False
      then show ?thesis by simp
    qed
    then obtain bbl where bbl: "(if truthy (samePageSize4 args1) then
                combine_tuple_lists_with_mask
                  (case samePageSize4 args1 of Some m \<Rightarrow> m | None \<Rightarrow> []) boxes
                  (replicate (length boxes) (PyList bb))
              else Inr (replicate (length boxes) (PyList bb))) = Inr bbl"
        and lbbl: "length bbl = length boxes" by blast
    obtain out where out: "merge_loop 0 boxes sel bbl [] = Inr out"
      using merge_loop_returns[of 0 boxes bbl sel "[]"] lbbl by auto
    have "snd (handle_same_page_size_option args boxes sel num) = Inr out"
      by (simp only: handle_same_page_size_option_def os prod.case if_not_P[OF False] if_False
            snd_conv bb and_then.simps bbl out)
    then show ?thesis by blast
  qed
qed


section \<open>Outside the documented inputs\<close>

text \<open>
  What the code does where the properties above do not apply: an empty selection, an
  \<open>order_n\<close> that was not clamped, a mask longer than the boxes, and an integer that
  \<^verbatim>\<open>float\<close> rounds.
\<close>

lemma calculate_empty_selection:
  "calculate_same_size_bounding_box boxes [] order_n = Inl IndexError"
  by (simp add: calculate_same_size_bounding_box_def getitem_def)

lemma calculate_order_n_too_large:
  "calculate_same_size_bounding_box
     [PyList [0, 0, 100, 100 :: int], PyList [10, 10, 110, 110], PyList [5, 5, 105, 105]]
     [0, 1, 2] 3 = Inl IndexError"
  by (simp add: calculate_same_size_bounding_box_def getitem_def)

lemma combine_mask_longer_than_box:
  "combine_tuple_lists_with_mask ''fffft'' [PyTuple [1, 2, 3, 4 :: int]] [PyTuple [10, 20, 30, 40]]
     = Inl IndexError"
  by (simp add: combine_tuple_lists_with_mask_def)

lemma float_overflow: "py_float (PyInt (2 ^ 1024)) = Inl OverflowError"
  by (simp add: float_of_int_def bit_length.simps Let_def)

lemma float_rounds_to_even:
  "py_float (PyInt (2 ^ 53 + 1)) = Inr (2 ^ 53) \<and> py_float (PyInt (2 ^ 53 + 3)) = Inr (2 ^ 53 + 4)"
  by (simp add: float_of_int_def bit_length.simps Let_def)

end
